theory Spec2Isabelle
  imports Main
begin

section \<open>The calendar constants of \<open>calendarInfo\<close> (src/App.tsx, lines 6-17)\<close>

text \<open>
  JavaScript numbers that only ever hold whole values are modelled as \<open>int\<close> (days and
  hours handed to the rule engine) or \<open>nat\<close> (loop counters and array indices).
  \<open>new Date(2025, 11, 0).getDate()\<close> is the number of days of November 2025.
\<close>

definition daysInMonth :: nat where
  "daysInMonth = 30"

definition hours :: "int list" where
  "hours = [8, 9, 10, 11, 12, 13, 14, 15, 16, 17, 18, 19, 20]"

definition holidays :: "int list" where
  "holidays = [5, 6, 10, 25]"

section \<open>The rule engine \<open>getInstructor\<close> (src/App.tsx, lines 22-61)\<close>

text \<open>The result \<open>string | null\<close> is a \<open>string option\<close>; \<open>null\<close> is \<open>None\<close>.\<close>

definition getInstructor :: "int \<Rightarrow> int \<Rightarrow> string option" where
  "getInstructor day hour =
     (if (day = 9 \<or> day = 16 \<or> day = 29) \<and> (hour \<ge> 8 \<and> hour \<le> 9) then Some ''Sosa''
      else if day = 13 then
        (if hour \<ge> 10 \<and> hour \<le> 20 then Some ''Gota'' else None)
      else if day = 20 then
        (if hour \<ge> 11 \<and> hour \<le> 13 then Some ''Emi'' else None)
      else if (day = 17 \<or> day = 28) \<and> (hour \<ge> 10 \<and> hour \<le> 16) then Some ''Gota''
      else if (day = 3 \<or> day = 24) \<and> (hour \<ge> 11 \<and> hour \<le> 13) then Some ''Emi''
      else if hour \<ge> 17 \<and> hour \<le> 20 then Some ''Gota''
      else if hour \<ge> 10 \<and> hour \<le> 16 then Some ''Kayo''
      else None)"

section \<open>The precedence rules as the specification words them\<close>

text \<open>
  The specification describes the rule engine as an ordered list of rules, each a guard
  on (day, hour) with the outcome it yields, the first rule whose guard holds deciding
  the result and no rule at all giving none. \<open>assignInstructor\<close> follows those words;
  it is compared with \<open>getInstructor\<close>, which follows the source.
\<close>

type_synonym rule = "(int \<Rightarrow> int \<Rightarrow> bool) \<times> (int \<Rightarrow> string option)"

definition within :: "int \<Rightarrow> int \<Rightarrow> int \<Rightarrow> bool" where
  "within lo hi x = (lo \<le> x \<and> x \<le> hi)"

definition window :: "int \<Rightarrow> int \<Rightarrow> string \<Rightarrow> int \<Rightarrow> string option" where
  "window lo hi name hour = (if within lo hi hour then Some name else None)"

definition precedence_rules :: "rule list" where
  "precedence_rules =
     [(\<lambda>day hour. day \<in> {9, 16, 29} \<and> within 8 9 hour, \<lambda>hour. Some ''Sosa''),
      (\<lambda>day hour. day = 13, window 10 20 ''Gota''),
      (\<lambda>day hour. day = 20, window 11 13 ''Emi''),
      (\<lambda>day hour. day \<in> {17, 28} \<and> within 10 16 hour, \<lambda>hour. Some ''Gota''),
      (\<lambda>day hour. day \<in> {3, 24} \<and> within 11 13 hour, \<lambda>hour. Some ''Emi''),
      (\<lambda>day hour. within 17 20 hour, \<lambda>hour. Some ''Gota''),
      (\<lambda>day hour. within 10 16 hour, \<lambda>hour. Some ''Kayo'')]"

fun first_match :: "rule list \<Rightarrow> int \<Rightarrow> int \<Rightarrow> string option" where
  "first_match [] day hour = None"
| "first_match ((guard, outcome) # rest) day hour =
     (if guard day hour then outcome hour else first_match rest day hour)"

definition assignInstructor :: "int \<Rightarrow> int \<Rightarrow> string option" where
  "assignInstructor day hour = first_match precedence_rules day hour"

text \<open>
  The domain the specification gives the rule engine: days 1..daysInMonth and the hours
  of the configured list.
\<close>

definition in_domain :: "nat \<Rightarrow> int list \<Rightarrow> int \<Rightarrow> int \<Rightarrow> bool" where
  "in_domain nd hs day hour = (1 \<le> day \<and> day \<le> int nd \<and> hour \<in> set hs)"

section \<open>The grid cells\<close>

text \<open>
  The interface \<open>GridCell\<close> (src/App.tsx, lines 243-247, the declaration imported from
  \<open>./types\<close>): \<open>instructor: string | null\<close>, \<open>rowspan: number\<close>, \<open>hidden: boolean\<close>.
  The rowspans the builder writes are counts, so the field is a \<open>nat\<close>.
\<close>

record GridCell =
  instructor :: "string option"
  rowspan :: nat
  hidden :: bool

text \<open>The grid \<open>GridCell[][]\<close> is indexed \<open>grid[h_idx][d_idx]\<close>: a list of hour rows.\<close>

type_synonym grid = "GridCell list list"

text \<open>
  The label of a holiday cell is the two-character string written in the source (the
  Japanese word for a day off). A \<open>string\<close> of HOL is a list of bytes, so the label is
  held as its six UTF-8 bytes.
\<close>

definition holiday_label :: string where
  "holiday_label = [CHR 0xE4, CHR 0xBC, CHR 0x91, CHR 0xE3, CHR 0x81, CHR 0xBF]"

text \<open>
  \<open>if (!instructor) continue\<close>: JavaScript takes \<open>null\<close> and the empty string for false.
\<close>

definition truthy :: "string option \<Rightarrow> bool" where
  "truthy v = (case v of None \<Rightarrow> False | Some s \<Rightarrow> s \<noteq> [])"

text \<open>
  An assignment to \<open>grid[h_idx][d_idx]\<close> or to one of its fields, the indices in range.
\<close>

definition update_cell :: "grid \<Rightarrow> nat \<Rightarrow> nat \<Rightarrow> (GridCell \<Rightarrow> GridCell) \<Rightarrow> grid" where
  "update_cell g h_idx d_idx upd = g[h_idx := (g ! h_idx)[d_idx := upd (g ! h_idx ! d_idx)]]"

text \<open>
  The only statement of the builder that can fail: \<open>grid[0][d_idx] = ...\<close> on a holiday
  when the hour list is empty, where \<open>grid[0]\<close> is \<open>undefined\<close> and the assignment throws
  a TypeError.
\<close>

datatype error = TypeError

section \<open>The grid builder \<open>scheduleGrid\<close> (src/App.tsx, lines 64-112)\<close>

text \<open>Lines 68-73: every cell starts as \<open>{ instructor: null, rowspan: 1, hidden: false }\<close>.\<close>

definition init_grid :: "nat \<Rightarrow> nat \<Rightarrow> grid" where
  "init_grid nh nd =
     replicate nh (replicate nd \<lparr>instructor = None, rowspan = 1, hidden = False\<rparr>)"

text \<open>Lines 82-84: the loop that hides the rows of a holiday from \<open>h_idx\<close> on.\<close>

function hide_rows :: "int list \<Rightarrow> nat \<Rightarrow> nat \<Rightarrow> grid \<Rightarrow> grid" where
  "hide_rows hs d_idx h_idx g =
     (if h_idx < length hs
      then hide_rows hs d_idx (Suc h_idx) (update_cell g h_idx d_idx (\<lambda>c. c\<lparr>hidden := True\<rparr>))
      else g)"
  by pat_completeness auto
termination
  by (relation "measure (\<lambda>(hs, d_idx, h_idx, g). length hs - h_idx)") auto

declare hide_rows.simps [simp del]

text \<open>
  Lines 99-107: the forward scan from \<open>next_h_idx\<close>, which hides each following cell
  while the rule engine gives the same instructor and stops (\<open>break\<close>) at the first
  hour that differs; it returns the grid and the span counted.
\<close>

function scan_span ::
  "(int \<Rightarrow> int \<Rightarrow> string option) \<Rightarrow> int list \<Rightarrow> int \<Rightarrow> nat \<Rightarrow> string option
     \<Rightarrow> nat \<Rightarrow> nat \<Rightarrow> grid \<Rightarrow> grid \<times> nat" where
  "scan_span rule hs day d_idx instr next_h_idx span g =
     (if next_h_idx < length hs then
        if rule day (hs ! next_h_idx) = instr
        then scan_span rule hs day d_idx instr (Suc next_h_idx) (Suc span)
               (update_cell g next_h_idx d_idx (\<lambda>c. c\<lparr>hidden := True\<rparr>))
        else (g, span)
      else (g, span))"
  by pat_completeness auto
termination
  by (relation "measure (\<lambda>(rule, hs, day, d_idx, instr, next_h_idx, span, g).
        length hs - next_h_idx)") auto

declare scan_span.simps [simp del]

text \<open>Lines 89-109: the hour loop of a day that is not a holiday, from \<open>h_idx\<close> on.\<close>

function fill_day ::
  "(int \<Rightarrow> int \<Rightarrow> string option) \<Rightarrow> int list \<Rightarrow> int \<Rightarrow> nat \<Rightarrow> nat \<Rightarrow> grid \<Rightarrow> grid" where
  "fill_day rule hs day d_idx h_idx g =
     (if h_idx < length hs then
        if hidden (g ! h_idx ! d_idx) then fill_day rule hs day d_idx (Suc h_idx) g
        else
          let instr = rule day (hs ! h_idx);
              g1 = update_cell g h_idx d_idx (\<lambda>c. c\<lparr>instructor := instr\<rparr>)
          in if \<not> truthy instr then fill_day rule hs day d_idx (Suc h_idx) g1
             else
               let (g2, span) = scan_span rule hs day d_idx instr (Suc h_idx) 1 g1
               in fill_day rule hs day d_idx (Suc h_idx)
                    (update_cell g2 h_idx d_idx (\<lambda>c. c\<lparr>rowspan := span\<rparr>))
      else g)"
  by pat_completeness auto
termination
  by (relation "measure (\<lambda>(rule, hs, day, d_idx, h_idx, g). length hs - h_idx)") auto

declare fill_day.simps [simp del]

text \<open>
  Lines 76-110: the day loop from \<open>day\<close> on. A holiday writes the merged cell into row 0
  and hides the other rows; any other day runs the hour loop.
\<close>

function populate ::
  "(int \<Rightarrow> int \<Rightarrow> string option) \<Rightarrow> nat \<Rightarrow> int list \<Rightarrow> int list \<Rightarrow> nat \<Rightarrow> grid
     \<Rightarrow> error + grid" where
  "populate rule nd hs hol day g =
     (if day \<le> nd then
        let d_idx = day - 1 in
        if int day \<in> set hol then
          if hs = [] then Inl TypeError
          else populate rule nd hs hol (Suc day)
                 (hide_rows hs d_idx 1
                    (update_cell g 0 d_idx
                       (\<lambda>c. \<lparr>instructor = Some holiday_label, rowspan = length hs,
                              hidden = False\<rparr>)))
        else populate rule nd hs hol (Suc day) (fill_day rule hs (int day) d_idx 0 g)
      else Inr g)"
  by pat_completeness auto
termination
  by (relation "measure (\<lambda>(rule, nd, hs, hol, day, g). Suc nd - day)") auto

declare populate.simps [simp del]

text \<open>
  The builder, for any rule engine and calendar, and \<open>scheduleGrid\<close> itself: the builder
  on \<open>getInstructor\<close> and the constants of \<open>calendarInfo\<close>.
\<close>

definition buildGrid ::
  "(int \<Rightarrow> int \<Rightarrow> string option) \<Rightarrow> nat \<Rightarrow> int list \<Rightarrow> int list \<Rightarrow> error + grid" where
  "buildGrid rule nd hs hol = populate rule nd hs hol 1 (init_grid (length hs) nd)"

definition scheduleGrid :: "error + grid" where
  "scheduleGrid = buildGrid getInstructor daysInMonth hours holidays"

section \<open>Reading the grid\<close>

text \<open>The column of a day, top to bottom, and the quantities the column invariants use.\<close>

definition column :: "grid \<Rightarrow> nat \<Rightarrow> GridCell list" where
  "column g d_idx = map (\<lambda>row. row ! d_idx) g"

definition rowspan_sum :: "GridCell list \<Rightarrow> nat" where
  "rowspan_sum col = sum_list (map rowspan (filter (\<lambda>c. \<not> hidden c) col))"

definition visible_count :: "GridCell list \<Rightarrow> nat" where
  "visible_count col = length (filter (\<lambda>c. \<not> hidden c) col)"

text \<open>
  The hidden cells that the rowspans of the visible cells cover: for each visible cell,
  the hidden ones among the \<open>rowspan - 1\<close> cells below it.
\<close>

fun covered_hidden :: "GridCell list \<Rightarrow> nat" where
  "covered_hidden [] = 0"
| "covered_hidden (c # cs) =
     (if hidden c then 0 else length (filter hidden (take (rowspan c - 1) cs)))
     + covered_hidden cs"

text \<open>
  A maximal run of the rule engine on a day: the hour indices \<open>i..j\<close> all give the
  instructor of index \<open>i\<close>, who is not none, and neither the index before \<open>i\<close> nor the
  one after \<open>j\<close> does.
\<close>

definition maximal_run ::
  "(int \<Rightarrow> int \<Rightarrow> string option) \<Rightarrow> int list \<Rightarrow> int \<Rightarrow> nat \<Rightarrow> nat \<Rightarrow> bool" where
  "maximal_run rule hs day i j =
     (i \<le> j \<and> j < length hs \<and> rule day (hs ! i) \<noteq> None \<and>
      list_all (\<lambda>h. rule day h = rule day (hs ! i)) (take (Suc j - i) (drop i hs)) \<and>
      (i = 0 \<or> rule day (hs ! (i - 1)) \<noteq> rule day (hs ! i)) \<and>
      (Suc j = length hs \<or> rule day (hs ! Suc j) \<noteq> rule day (hs ! i)))"

text \<open>
  The builder returns a grid unless the hour list is empty and a day of the month is a
  holiday (lemma \<open>buildGrid_returns\<close>).
\<close>

definition builds :: "nat \<Rightarrow> int list \<Rightarrow> int list \<Rightarrow> bool" where
  "builds nd hs hol = (hs \<noteq> [] \<or> list_all (\<lambda>day. int day \<notin> set hol) [1..<Suc nd])"

section \<open>The closed form of a built grid\<close>

text \<open>
  Every row of a grid of shape \<open>nh\<close> by \<open>nd\<close> has \<open>nd\<close> cells, and there are \<open>nh\<close> rows.
\<close>

definition grid_shape :: "grid \<Rightarrow> nat \<Rightarrow> nat \<Rightarrow> bool" where
  "grid_shape g nh nd = (length g = nh \<and> list_all (\<lambda>row. length row = nd) g)"

text \<open>
  The number of hours after index \<open>k\<close> that the forward scan from \<open>k\<close> hides, and the cell
  the hour loop leaves at index \<open>k\<close> of a day that is not a holiday: hidden when the
  rule engine gives the truthy instructor of the index before, visible otherwise.
\<close>

definition run_len :: "(int \<Rightarrow> int \<Rightarrow> string option) \<Rightarrow> int list \<Rightarrow> int \<Rightarrow> nat \<Rightarrow> nat" where
  "run_len rule hs day k =
     length (takeWhile (\<lambda>h. rule day h = rule day (hs ! k)) (drop (Suc k) hs))"

definition final_cell ::
  "(int \<Rightarrow> int \<Rightarrow> string option) \<Rightarrow> int list \<Rightarrow> int \<Rightarrow> nat \<Rightarrow> GridCell" where
  "final_cell rule hs day k =
     (if 0 < k \<and> truthy (rule day (hs ! k)) \<and> rule day (hs ! (k - 1)) = rule day (hs ! k)
      then \<lparr>instructor = None, rowspan = 1, hidden = True\<rparr>
      else \<lparr>instructor = rule day (hs ! k),
            rowspan = (if truthy (rule day (hs ! k)) then Suc (run_len rule hs day k) else 1),
            hidden = False\<rparr>)"

text \<open>
  The state of the column while the hour loop stands at index \<open>h\<close>: the cells before \<open>h\<close>
  are final, the cells from \<open>h\<close> on are untouched but for the ones the last scan hid.
\<close>

definition pending :: "(int \<Rightarrow> int \<Rightarrow> string option) \<Rightarrow> int list \<Rightarrow> int \<Rightarrow> nat \<Rightarrow> nat \<Rightarrow> bool" where
  "pending rule hs day h k =
     (0 < h \<and> truthy (rule day (hs ! (h - 1))) \<and> k < h + run_len rule hs day (h - 1))"

definition partial_cell ::
  "(int \<Rightarrow> int \<Rightarrow> string option) \<Rightarrow> int list \<Rightarrow> int \<Rightarrow> nat \<Rightarrow> nat \<Rightarrow> GridCell" where
  "partial_cell rule hs day h k =
     (if k < h then final_cell rule hs day k
      else \<lparr>instructor = None, rowspan = 1, hidden = pending rule hs day h k\<rparr>)"

text \<open>The cells of a holiday, and the cell of any day.\<close>

definition holiday_cell :: "int list \<Rightarrow> nat \<Rightarrow> GridCell" where
  "holiday_cell hs k =
     (if k = 0 then \<lparr>instructor = Some holiday_label, rowspan = length hs, hidden = False\<rparr>
      else \<lparr>instructor = None, rowspan = 1, hidden = True\<rparr>)"

definition built_cell ::
  "(int \<Rightarrow> int \<Rightarrow> string option) \<Rightarrow> int list \<Rightarrow> int list \<Rightarrow> nat \<Rightarrow> nat \<Rightarrow> GridCell" where
  "built_cell rule hs hol day k =
     (if int day \<in> set hol then holiday_cell hs k else final_cell rule hs (int day) k)"

text \<open>
  The hour loop as a recursion on the list of the rule engine's results, \<open>prev\<close> being
  the result before the head of the list.
\<close>

fun merge_col :: "string option option \<Rightarrow> string option list \<Rightarrow> GridCell list" where
  "merge_col prev [] = []"
| "merge_col prev (r # rs) =
     (if truthy r \<and> prev = Some r then \<lparr>instructor = None, rowspan = 1, hidden = True\<rparr>
      else \<lparr>instructor = r,
            rowspan = (if truthy r then Suc (length (takeWhile (\<lambda>x. x = r) rs)) else 1),
            hidden = False\<rparr>)
     # merge_col (Some r) rs"

section \<open>The rule engine: results\<close>

lemma assignInstructor_unfold:
  "assignInstructor day hour =
     (if day \<in> {9, 16, 29} \<and> within 8 9 hour then Some ''Sosa''
      else if day = 13 then window 10 20 ''Gota'' hour
      else if day = 20 then window 11 13 ''Emi'' hour
      else if day \<in> {17, 28} \<and> within 10 16 hour then Some ''Gota''
      else if day \<in> {3, 24} \<and> within 11 13 hour then Some ''Emi''
      else if within 17 20 hour then Some ''Gota''
      else if within 10 16 hour then Some ''Kayo''
      else None)"
  by (simp add: assignInstructor_def precedence_rules_def)

lemma getInstructor_not_empty: "getInstructor day hour \<noteq> Some []"
  by (simp add: getInstructor_def)

text \<open>
  C1. On every day and hour (so in particular on the days 1..daysInMonth and the hours of
  the configured list) \<open>getInstructor\<close> returns what the eight precedence rules of the
  specification give when evaluated in order with the first match winning, and the nine
  example evaluations of the specification hold.
\<close>

theorem getInstructor_precedence:
  "getInstructor day hour = assignInstructor day hour
   \<and> getInstructor 9 8 = Some ''Sosa''
   \<and> getInstructor 13 15 = Some ''Gota''
   \<and> getInstructor 13 9 = None
   \<and> getInstructor 20 12 = Some ''Emi''
   \<and> getInstructor 20 9 = None
   \<and> getInstructor 17 12 = Some ''Gota''
   \<and> getInstructor 1 18 = Some ''Gota''
   \<and> getInstructor 1 11 = Some ''Kayo''
   \<and> getInstructor 1 9 = None"
proof -
  have "getInstructor day hour = assignInstructor day hour"
    unfolding assignInstructor_unfold
    by (auto simp add: getInstructor_def within_def window_def)
  moreover have "getInstructor 9 8 = Some ''Sosa''" "getInstructor 13 15 = Some ''Gota''"
    "getInstructor 13 9 = None" "getInstructor 20 12 = Some ''Emi''"
    "getInstructor 20 9 = None" "getInstructor 17 12 = Some ''Gota''"
    "getInstructor 1 18 = Some ''Gota''" "getInstructor 1 11 = Some ''Kayo''"
    "getInstructor 1 9 = None"
    by (simp_all add: getInstructor_def)
  ultimately show ?thesis by simp
qed

text \<open>
  C4. Days 13 and 20 are restricted as a whole: on day 13 the result is Gota exactly at
  the hours 10..20 and none at every other hour, on day 20 it is Emi exactly at the
  hours 11..13 and none at every other hour; so the evening hours 17..20 of day 20 have
  no instructor, although the default evening rule gives Gota on an ordinary day.
\<close>

theorem getInstructor_special_days:
  "getInstructor 13 hour = (if 10 \<le> hour \<and> hour \<le> 20 then Some ''Gota'' else None)
   \<and> getInstructor 20 hour = (if 11 \<le> hour \<and> hour \<le> 13 then Some ''Emi'' else None)
   \<and> map (getInstructor 20) [17, 18, 19, 20] = [None, None, None, None]
   \<and> map (getInstructor 1) [17, 18, 19, 20]
       = [Some ''Gota'', Some ''Gota'', Some ''Gota'', Some ''Gota'']"
  by (simp add: getInstructor_def)

section \<open>The builder: updates and loops\<close>

lemma grid_shape_nth:
  "grid_shape g nh nd \<longleftrightarrow> length g = nh \<and> (\<forall>k<nh. length (g ! k) = nd)"
  by (auto simp: grid_shape_def list_all_length)

lemma update_cell_shape:
  "grid_shape g nh nd \<Longrightarrow> grid_shape (update_cell g h d upd) nh nd"
  by (cases "h < length g") (auto simp: grid_shape_nth update_cell_def nth_list_update)

lemma update_cell_nth:
  "grid_shape g nh nd \<Longrightarrow> h < nh \<Longrightarrow> d < nd \<Longrightarrow> k < nh \<Longrightarrow> d' < nd \<Longrightarrow>
   update_cell g h d upd ! k ! d' = (if k = h \<and> d' = d then upd (g ! h ! d) else g ! k ! d')"
  by (auto simp: grid_shape_nth update_cell_def nth_list_update)

lemma init_grid_shape: "grid_shape (init_grid nh nd) nh nd"
  by (simp add: grid_shape_nth init_grid_def)

lemma init_grid_nth:
  "k < nh \<Longrightarrow> d < nd \<Longrightarrow>
   init_grid nh nd ! k ! d = \<lparr>instructor = None, rowspan = 1, hidden = False\<rparr>"
  by (simp add: init_grid_def)

lemma hide_rows_spec:
  "grid_shape g (length hs) nd \<Longrightarrow> d < nd \<Longrightarrow>
   grid_shape (hide_rows hs d h g) (length hs) nd \<and>
   (\<forall>k<length hs. \<forall>d'<nd. hide_rows hs d h g ! k ! d' =
      (if d' = d \<and> h \<le> k then (g ! k ! d)\<lparr>hidden := True\<rparr> else g ! k ! d'))"
proof (induction hs d h g rule: hide_rows.induct)
  case (1 hs d h g)
  show ?case
  proof (cases "h < length hs")
    case False
    then have "hide_rows hs d h g = g" by (subst hide_rows.simps) simp
    then show ?thesis using False "1.prems" by simp
  next
    case True
    let ?g1 = "update_cell g h d (\<lambda>c. c\<lparr>hidden := True\<rparr>)"
    have sh1: "grid_shape ?g1 (length hs) nd"
      using "1.prems" by (simp add: update_cell_shape)
    have ih: "grid_shape (hide_rows hs d (Suc h) ?g1) (length hs) nd \<and>
      (\<forall>k<length hs. \<forall>d'<nd. hide_rows hs d (Suc h) ?g1 ! k ! d' =
        (if d' = d \<and> Suc h \<le> k then (?g1 ! k ! d)\<lparr>hidden := True\<rparr> else ?g1 ! k ! d'))"
      using "1.IH" [OF True sh1 "1.prems"(2)] .
    have eq: "hide_rows hs d h g = hide_rows hs d (Suc h) ?g1"
      using True by (subst hide_rows.simps) simp
    have nth1: "\<And>k d'. k < length hs \<Longrightarrow> d' < nd \<Longrightarrow>
        ?g1 ! k ! d' = (if k = h \<and> d' = d then (g ! h ! d)\<lparr>hidden := True\<rparr> else g ! k ! d')"
      using update_cell_nth [OF "1.prems"(1) True "1.prems"(2)] by simp
    show ?thesis
      unfolding eq using ih nth1 "1.prems"(2) by (auto simp: le_Suc_eq)
  qed
qed

lemma scan_span_spec:
  "grid_shape g (length hs) nd \<Longrightarrow> d < nd \<Longrightarrow>
   (case scan_span rule hs day d instr nxt span g of (g', span') \<Rightarrow>
      span' = span + length (takeWhile (\<lambda>h. rule day h = instr) (drop nxt hs)) \<and>
      grid_shape g' (length hs) nd \<and>
      (\<forall>k<length hs. \<forall>d'<nd. g' ! k ! d' =
        (if d' = d \<and> nxt \<le> k \<and>
            k < nxt + length (takeWhile (\<lambda>h. rule day h = instr) (drop nxt hs))
         then (g ! k ! d)\<lparr>hidden := True\<rparr> else g ! k ! d')))"
proof (induction rule hs day d instr nxt span g rule: scan_span.induct)
  case (1 rule hs day d instr nxt span g)
  let ?P = "\<lambda>h. rule day h = instr"
  show ?case
  proof (cases "nxt < length hs \<and> rule day (hs ! nxt) = instr")
    case False
    then have "takeWhile ?P (drop nxt hs) = []"
      by (cases "nxt < length hs") (auto simp: Cons_nth_drop_Suc [symmetric])
    moreover have "scan_span rule hs day d instr nxt span g = (g, span)"
      using False by (subst scan_span.simps) auto
    ultimately show ?thesis using "1.prems" by auto
  next
    case True
    let ?g1 = "update_cell g nxt d (\<lambda>c. c\<lparr>hidden := True\<rparr>)"
    from True have lt: "nxt < length hs" and p: "rule day (hs ! nxt) = instr" by simp_all
    have sh1: "grid_shape ?g1 (length hs) nd"
      using "1.prems" by (simp add: update_cell_shape)
    have tw: "length (takeWhile ?P (drop nxt hs)) =
        Suc (length (takeWhile ?P (drop (Suc nxt) hs)))"
      using lt p by (simp add: Cons_nth_drop_Suc [symmetric])
    have eq: "scan_span rule hs day d instr nxt span g =
        scan_span rule hs day d instr (Suc nxt) (Suc span) ?g1"
      using True by (subst scan_span.simps) simp
    have nth1: "\<And>k d'. k < length hs \<Longrightarrow> d' < nd \<Longrightarrow>
        ?g1 ! k ! d' = (if k = nxt \<and> d' = d then (g ! nxt ! d)\<lparr>hidden := True\<rparr> else g ! k ! d')"
      using update_cell_nth [OF "1.prems"(1) lt "1.prems"(2)] by simp
    show ?thesis
      unfolding eq tw using "1.IH" [OF lt p sh1 "1.prems"(2)] nth1 "1.prems"(2)
      by (auto simp: le_Suc_eq split: prod.splits)
  qed
qed

section \<open>The builder: the hour loop\<close>

lemma run_len_pred:
  "0 < h \<Longrightarrow> h < length hs \<Longrightarrow>
   run_len rule hs day (h - 1) =
     (if rule day (hs ! h) = rule day (hs ! (h - 1)) then Suc (run_len rule hs day h) else 0)"
  by (simp add: run_len_def Cons_nth_drop_Suc [symmetric])

lemma partial_step_hidden:
  assumes "h < length hs" "pending rule hs day h h"
  shows "partial_cell rule hs day (Suc h) k = partial_cell rule hs day h k"
proof -
  from assms have h0: "0 < h" and tr: "truthy (rule day (hs ! (h - 1)))"
    and pos: "0 < run_len rule hs day (h - 1)"
    by (simp_all add: pending_def)
  from pos run_len_pred [OF h0 assms(1), of rule day]
  have same: "rule day (hs ! h) = rule day (hs ! (h - 1))"
    and len: "run_len rule hs day (h - 1) = Suc (run_len rule hs day h)"
    by (simp_all split: if_splits)
  show ?thesis
    using h0 tr same len assms(2)
    by (cases "k < h"; cases "k = h") (auto simp: partial_cell_def final_cell_def pending_def)
qed

lemma partial_step_visible:
  assumes "h < length hs" "\<not> pending rule hs day h h"
  shows "partial_cell rule hs day (Suc h) k =
     (if k < h then partial_cell rule hs day h k
      else if k = h then
        \<lparr>instructor = rule day (hs ! h),
         rowspan = (if truthy (rule day (hs ! h)) then Suc (run_len rule hs day h) else 1),
         hidden = False\<rparr>
      else \<lparr>instructor = None, rowspan = 1,
            hidden = (truthy (rule day (hs ! h)) \<and> k < Suc h + run_len rule hs day h)\<rparr>)"
proof -
  have nf: "\<not> (0 < h \<and> truthy (rule day (hs ! h)) \<and> rule day (hs ! (h - 1)) = rule day (hs ! h))"
  proof
    assume a: "0 < h \<and> truthy (rule day (hs ! h)) \<and> rule day (hs ! (h - 1)) = rule day (hs ! h)"
    then have "run_len rule hs day (h - 1) = Suc (run_len rule hs day h)"
      using run_len_pred [of h hs rule day] assms(1) by simp
    with a have "pending rule hs day h h" by (simp add: pending_def)
    with assms(2) show False by simp
  qed
  show ?thesis
    using nf by (auto simp: partial_cell_def final_cell_def pending_def)
qed

lemma not_pending_later:
  "\<not> pending rule hs day h h \<Longrightarrow> h \<le> k \<Longrightarrow> \<not> pending rule hs day h k"
  by (auto simp: pending_def)

lemma fill_day_spec:
  assumes "grid_shape g (length hs) nd" "d < nd" "h \<le> length hs"
    and "\<forall>k<length hs. g ! k ! d = partial_cell rule hs day h k"
  shows "grid_shape (fill_day rule hs day d h g) (length hs) nd \<and>
     (\<forall>k<length hs. fill_day rule hs day d h g ! k ! d = final_cell rule hs day k) \<and>
     (\<forall>k<length hs. \<forall>d'<nd. d' \<noteq> d \<longrightarrow> fill_day rule hs day d h g ! k ! d' = g ! k ! d')"
  using assms
proof (induction "length hs - h" arbitrary: h g)
  case 0
  then have "h = length hs" by simp
  then have "fill_day rule hs day d h g = g" by (subst fill_day.simps) simp
  then show ?case using "0.prems" \<open>h = length hs\<close> by (simp add: partial_cell_def)
next
  case (Suc m)
  then have lt: "h < length hs" by simp
  note sh = Suc.prems(1) and d = Suc.prems(2) and inv = Suc.prems(4)
  have cur: "g ! h ! d = \<lparr>instructor = None, rowspan = 1, hidden = pending rule hs day h h\<rparr>"
    using inv lt by (simp add: partial_cell_def)
  have m: "m = length hs - Suc h" using Suc.hyps(2) by simp
  have le: "Suc h \<le> length hs" using lt by simp
  show ?case
  proof (cases "pending rule hs day h h")
    case True
    have eq: "fill_day rule hs day d h g = fill_day rule hs day d (Suc h) g"
      using lt cur True by (subst fill_day.simps) simp
    have "\<forall>k<length hs. g ! k ! d = partial_cell rule hs day (Suc h) k"
      using inv partial_step_hidden [OF lt True] by simp
    from Suc.hyps(1) [OF m sh d le this] show ?thesis unfolding eq .
  next
    case False
    let ?r = "rule day (hs ! h)"
    let ?g1 = "update_cell g h d (\<lambda>c. c\<lparr>instructor := ?r\<rparr>)"
    have sh1: "grid_shape ?g1 (length hs) nd" using sh by (rule update_cell_shape)
    have nth1: "\<And>k d'. k < length hs \<Longrightarrow> d' < nd \<Longrightarrow>
        ?g1 ! k ! d' = (if k = h \<and> d' = d then (g ! h ! d)\<lparr>instructor := ?r\<rparr> else g ! k ! d')"
      using update_cell_nth [OF sh lt d] by simp
    have old: "\<And>k. k < length hs \<Longrightarrow> h \<le> k \<Longrightarrow>
        g ! k ! d = \<lparr>instructor = None, rowspan = 1, hidden = False\<rparr>"
      using inv not_pending_later [OF False] by (simp add: partial_cell_def)
    show ?thesis
    proof (cases "truthy ?r")
      case nt: False
      have eq: "fill_day rule hs day d h g = fill_day rule hs day d (Suc h) ?g1"
        using lt cur False nt by (subst fill_day.simps) (simp add: Let_def)
      have "\<forall>k<length hs. ?g1 ! k ! d = partial_cell rule hs day (Suc h) k"
      proof (intro allI impI)
        fix k assume k: "k < length hs"
        show "?g1 ! k ! d = partial_cell rule hs day (Suc h) k"
          unfolding partial_step_visible [OF lt False]
          using nth1 [OF k d] old [OF k] inv k nt by (cases "k < h"; cases "k = h") auto
      qed
      from Suc.hyps(1) [OF m sh1 d le this] nth1 show ?thesis unfolding eq by simp
    next
      case tr: True
      obtain g2 span where sc: "scan_span rule hs day d ?r (Suc h) 1 ?g1 = (g2, span)"
        by (cases "scan_span rule hs day d ?r (Suc h) 1 ?g1") auto
      let ?g3 = "update_cell g2 h d (\<lambda>c. c\<lparr>rowspan := span\<rparr>)"
      from scan_span_spec [where rule = rule and day = day and instr = ?r and nxt = "Suc h"
          and span = 1, OF sh1 d] sc
      have span: "span = Suc (run_len rule hs day h)"
        and sh2: "grid_shape g2 (length hs) nd"
        and nth2: "\<And>k d'. k < length hs \<Longrightarrow> d' < nd \<Longrightarrow> g2 ! k ! d' =
            (if d' = d \<and> Suc h \<le> k \<and> k < Suc h + run_len rule hs day h
             then (?g1 ! k ! d)\<lparr>hidden := True\<rparr> else ?g1 ! k ! d')"
        by (simp_all add: run_len_def)
      have sh3: "grid_shape ?g3 (length hs) nd" using sh2 by (rule update_cell_shape)
      have nth3: "\<And>k d'. k < length hs \<Longrightarrow> d' < nd \<Longrightarrow>
          ?g3 ! k ! d' = (if k = h \<and> d' = d then (g2 ! h ! d)\<lparr>rowspan := span\<rparr> else g2 ! k ! d')"
        using update_cell_nth [OF sh2 lt d] by simp
      have eq: "fill_day rule hs day d h g = fill_day rule hs day d (Suc h) ?g3"
        using lt cur False tr sc by (subst fill_day.simps) (simp add: Let_def)
      have "\<forall>k<length hs. ?g3 ! k ! d = partial_cell rule hs day (Suc h) k"
      proof (intro allI impI)
        fix k assume k: "k < length hs"
        show "?g3 ! k ! d = partial_cell rule hs day (Suc h) k"
          unfolding partial_step_visible [OF lt False]
          using nth3 [OF k d] nth2 [OF k d] nth2 [OF lt d] nth1 [OF k d] old [OF k] inv k tr span
          by (cases "k < h"; cases "k = h") auto
      qed
      from Suc.hyps(1) [OF m sh3 d le this]
      have res: "grid_shape (fill_day rule hs day d (Suc h) ?g3) (length hs) nd"
        "\<forall>k<length hs. fill_day rule hs day d (Suc h) ?g3 ! k ! d = final_cell rule hs day k"
        "\<forall>k<length hs. \<forall>d'<nd. d' \<noteq> d \<longrightarrow> fill_day rule hs day d (Suc h) ?g3 ! k ! d' = ?g3 ! k ! d'"
        by simp_all
      have "\<And>k d'. k < length hs \<Longrightarrow> d' < nd \<Longrightarrow> d' \<noteq> d \<Longrightarrow> ?g3 ! k ! d' = g ! k ! d'"
        using nth3 nth2 nth1 by simp
      with res show ?thesis unfolding eq by simp
    qed
  qed
qed

section \<open>The builder: the day loop and the built grid\<close>

lemma populate_spec:
  assumes "grid_shape g (length hs) nd" "1 \<le> day" "day \<le> Suc nd"
    and "\<forall>k<length hs. \<forall>d<nd. g ! k ! d =
          (if Suc d < day then built_cell rule hs hol (Suc d) k
           else \<lparr>instructor = None, rowspan = 1, hidden = False\<rparr>)"
    and "hs \<noteq> [] \<or> (\<forall>dy. day \<le> dy \<and> dy \<le> nd \<longrightarrow> int dy \<notin> set hol)"
  shows "\<exists>g'. populate rule nd hs hol day g = Inr g' \<and> grid_shape g' (length hs) nd \<and>
     (\<forall>k<length hs. \<forall>d<nd. g' ! k ! d = built_cell rule hs hol (Suc d) k)"
  using assms
proof (induction "Suc nd - day" arbitrary: day g)
  case 0
  then have "day = Suc nd" by simp
  then have "populate rule nd hs hol day g = Inr g" by (subst populate.simps) simp
  then show ?case using "0.prems" \<open>day = Suc nd\<close> by simp
next
  case (Suc m)
  then have le: "day \<le> nd" by simp
  note sh = Suc.prems(1) and inv = Suc.prems(4) and ok = Suc.prems(5)
  have d: "day - 1 < nd" using le Suc.prems(2) by simp
  have m: "m = Suc nd - Suc day" using Suc.hyps(2) by simp
  have one: "1 \<le> Suc day" by simp
  have le': "Suc day \<le> Suc nd" using le by simp
  have ok': "hs \<noteq> [] \<or> (\<forall>dy. Suc day \<le> dy \<and> dy \<le> nd \<longrightarrow> int dy \<notin> set hol)"
    using ok by auto
  have sd: "Suc (day - 1) = day" using Suc.prems(2) by simp
  show ?case
  proof (cases "int day \<in> set hol")
    case True
    with ok le have ne: "hs \<noteq> []" by auto
    then have pos: "0 < length hs" by simp
    let ?c = "\<lparr>instructor = Some holiday_label, rowspan = length hs, hidden = False\<rparr>"
    let ?g1 = "update_cell g 0 (day - 1) (\<lambda>c. ?c)"
    let ?g2 = "hide_rows hs (day - 1) 1 ?g1"
    have sh1: "grid_shape ?g1 (length hs) nd" using sh by (rule update_cell_shape)
    have nth1: "\<And>k d'. k < length hs \<Longrightarrow> d' < nd \<Longrightarrow>
        ?g1 ! k ! d' = (if k = 0 \<and> d' = day - 1 then ?c else g ! k ! d')"
      using update_cell_nth [OF sh pos d] by simp
    from hide_rows_spec [OF sh1 d, of 1]
    have sh2: "grid_shape ?g2 (length hs) nd"
      and nth2: "\<And>k d'. k < length hs \<Longrightarrow> d' < nd \<Longrightarrow> ?g2 ! k ! d' =
          (if d' = day - 1 \<and> 1 \<le> k then (?g1 ! k ! (day - 1))\<lparr>hidden := True\<rparr>
           else ?g1 ! k ! d')"
      by simp_all
    have eq: "populate rule nd hs hol day g = populate rule nd hs hol (Suc day) ?g2"
      using le True ne by (subst populate.simps) (simp add: Let_def)
    have "\<forall>k<length hs. \<forall>d'<nd. ?g2 ! k ! d' =
          (if Suc d' < Suc day then built_cell rule hs hol (Suc d') k
           else \<lparr>instructor = None, rowspan = 1, hidden = False\<rparr>)"
    proof (intro allI impI)
      fix k d' assume k: "k < length hs" and d': "d' < nd"
      show "?g2 ! k ! d' =
          (if Suc d' < Suc day then built_cell rule hs hol (Suc d') k
           else \<lparr>instructor = None, rowspan = 1, hidden = False\<rparr>)"
      proof (cases "d' = day - 1")
        case same: True
        have "g ! k ! (day - 1) = \<lparr>instructor = None, rowspan = 1, hidden = False\<rparr>"
          using inv k d sd by simp
        then show ?thesis
          using same nth2 [OF k d] nth1 [OF k d] True sd
          by (cases "k = 0") (auto simp: built_cell_def holiday_cell_def)
      next
        case other: False
        then have "Suc d' < Suc day \<longleftrightarrow> Suc d' < day" using sd by auto
        then show ?thesis using other nth2 [OF k d'] nth1 [OF k d'] inv k d' by simp
      qed
    qed
    from Suc.hyps(1) [OF m sh2 one le' this ok'] show ?thesis unfolding eq .
  next
    case False
    let ?g1 = "fill_day rule hs (int day) (day - 1) 0 g"
    have start: "\<forall>k<length hs. g ! k ! (day - 1) = partial_cell rule hs (int day) 0 k"
      using inv d sd by (simp add: partial_cell_def pending_def)
    from fill_day_spec [OF sh d _ start]
    have sh1: "grid_shape ?g1 (length hs) nd"
      and col: "\<And>k. k < length hs \<Longrightarrow> ?g1 ! k ! (day - 1) = final_cell rule hs (int day) k"
      and frame: "\<And>k d'. k < length hs \<Longrightarrow> d' < nd \<Longrightarrow> d' \<noteq> day - 1 \<Longrightarrow>
          ?g1 ! k ! d' = g ! k ! d'"
      by simp_all
    have eq: "populate rule nd hs hol day g = populate rule nd hs hol (Suc day) ?g1"
      using le False by (subst populate.simps) (simp add: Let_def)
    have "\<forall>k<length hs. \<forall>d'<nd. ?g1 ! k ! d' =
          (if Suc d' < Suc day then built_cell rule hs hol (Suc d') k
           else \<lparr>instructor = None, rowspan = 1, hidden = False\<rparr>)"
    proof (intro allI impI)
      fix k d' assume k: "k < length hs" and d': "d' < nd"
      show "?g1 ! k ! d' =
          (if Suc d' < Suc day then built_cell rule hs hol (Suc d') k
           else \<lparr>instructor = None, rowspan = 1, hidden = False\<rparr>)"
      proof (cases "d' = day - 1")
        case same: True
        then show ?thesis using col [OF k] False sd by (simp add: built_cell_def)
      next
        case other: False
        then have "Suc d' < Suc day \<longleftrightarrow> Suc d' < day" using sd by auto
        then show ?thesis using frame [OF k d' other] inv k d' by simp
      qed
    qed
    from Suc.hyps(1) [OF m sh1 one le' this ok'] show ?thesis unfolding eq .
  qed
qed

lemma populate_fails:
  assumes "hs = []" "day \<le> dy" "dy \<le> nd" "int dy \<in> set hol"
  shows "populate rule nd hs hol day g = Inl TypeError"
  using assms
proof (induction "Suc nd - day" arbitrary: day g)
  case 0
  then show ?case by simp
next
  case (Suc m)
  then have le: "day \<le> nd" by simp
  show ?case
  proof (cases "int day \<in> set hol")
    case True
    then show ?thesis using le Suc.prems(1) by (subst populate.simps) (simp add: Let_def)
  next
    case False
    then have "day \<noteq> dy" using Suc.prems(4) by auto
    then have "Suc day \<le> dy" using Suc.prems(2) by simp
    moreover have "m = Suc nd - Suc day" using Suc.hyps(2) by simp
    ultimately have "populate rule nd hs hol (Suc day)
        (fill_day rule hs (int day) (day - 1) 0 g) = Inl TypeError"
      using Suc.hyps(1) Suc.prems by blast
    then show ?thesis using le False by (subst populate.simps) (simp add: Let_def)
  qed
qed

lemma buildGrid_spec:
  assumes "builds nd hs hol"
  shows "\<exists>g. buildGrid rule nd hs hol = Inr g \<and> grid_shape g (length hs) nd \<and>
     (\<forall>k<length hs. \<forall>d<nd. g ! k ! d = built_cell rule hs hol (Suc d) k)"
proof -
  have ok: "hs \<noteq> [] \<or> (\<forall>dy. 1 \<le> dy \<and> dy \<le> nd \<longrightarrow> int dy \<notin> set hol)"
    using assms by (auto simp: builds_def list_all_iff)
  show ?thesis
    unfolding buildGrid_def
    by (rule populate_spec [OF init_grid_shape _ _ _ ok]) (simp_all add: init_grid_nth)
qed

lemma buildGrid_fails:
  assumes "\<not> builds nd hs hol"
  shows "buildGrid rule nd hs hol = Inl TypeError"
proof -
  from assms obtain dy where "hs = []" "1 \<le> dy" "dy \<le> nd" "int dy \<in> set hol"
    by (auto simp: builds_def list_all_iff)
  then show ?thesis unfolding buildGrid_def by (rule populate_fails)
qed

lemma buildGrid_returns:
  "(\<exists>g. buildGrid rule nd hs hol = Inr g) \<longleftrightarrow> builds nd hs hol"
proof (cases "builds nd hs hol")
  case True
  then show ?thesis using buildGrid_spec [of nd hs hol rule] by blast
next
  case False
  then show ?thesis using buildGrid_fails [of nd hs hol rule] by simp
qed

lemma builds_nonempty: "hs \<noteq> [] \<Longrightarrow> builds nd hs hol"
  by (simp add: builds_def)

lemma buildGrid_cells:
  assumes "builds nd hs hol"
  shows "\<exists>g. buildGrid rule nd hs hol = Inr g \<and> length g = length hs \<and>
     (\<forall>d<nd. column g d = map (built_cell rule hs hol (Suc d)) [0..<length hs]) \<and>
     (\<forall>k<length hs. \<forall>d<nd. g ! k ! d = built_cell rule hs hol (Suc d) k)"
proof -
  from buildGrid_spec [OF assms] obtain g where
    g: "buildGrid rule nd hs hol = Inr g" "grid_shape g (length hs) nd"
      "\<forall>k<length hs. \<forall>d<nd. g ! k ! d = built_cell rule hs hol (Suc d) k"
    by blast
  have len: "length g = length hs" using g(2) by (simp add: grid_shape_nth)
  have "\<forall>d<nd. column g d = map (built_cell rule hs hol (Suc d)) [0..<length hs]"
  proof (intro allI impI)
    fix d assume d: "d < nd"
    show "column g d = map (built_cell rule hs hol (Suc d)) [0..<length hs]"
    proof (rule nth_equalityI)
      show "length (column g d) = length (map (built_cell rule hs hol (Suc d)) [0..<length hs])"
        using len by (simp add: column_def)
    next
      fix k assume "k < length (column g d)"
      then have k: "k < length hs" using len by (simp add: column_def)
      then show "column g d ! k = map (built_cell rule hs hol (Suc d)) [0..<length hs] ! k"
        using g(3) d len by (simp add: column_def)
    qed
  qed
  with g len show ?thesis by blast
qed

section \<open>Columns as lists\<close>

lemma final_cells_merge_col:
  "i \<le> length hs \<Longrightarrow>
   map (final_cell rule hs day) [i..<length hs] =
   merge_col (if i = 0 then None else Some (rule day (hs ! (i - 1)))) (map (rule day) (drop i hs))"
proof (induction "length hs - i" arbitrary: i)
  case 0
  then show ?case by simp
next
  case (Suc m)
  then have lt: "i < length hs" by simp
  have up: "[i..<length hs] = i # [Suc i..<length hs]" using lt by (simp add: upt_conv_Cons)
  have dr: "drop i hs = hs ! i # drop (Suc i) hs" using lt by (simp add: Cons_nth_drop_Suc)
  have tw: "length (takeWhile (\<lambda>x. x = rule day (hs ! i)) (map (rule day) (drop (Suc i) hs)))
      = run_len rule hs day i"
    by (simp add: run_len_def takeWhile_map comp_def)
  have ih: "map (final_cell rule hs day) [Suc i..<length hs] =
      merge_col (Some (rule day (hs ! i))) (map (rule day) (drop (Suc i) hs))"
    using Suc.hyps(1) [of "Suc i"] Suc.hyps(2) lt by simp
  have hd: "final_cell rule hs day i =
      (if truthy (rule day (hs ! i)) \<and>
          (if i = 0 then None else Some (rule day (hs ! (i - 1)))) = Some (rule day (hs ! i))
       then \<lparr>instructor = None, rowspan = 1, hidden = True\<rparr>
       else \<lparr>instructor = rule day (hs ! i),
            rowspan = (if truthy (rule day (hs ! i))
              then Suc (length (takeWhile (\<lambda>x. x = rule day (hs ! i))
                     (map (rule day) (drop (Suc i) hs)))) else 1),
            hidden = False\<rparr>)"
    unfolding tw by (cases "i = 0") (auto simp: final_cell_def)
  have "map (final_cell rule hs day) [i..<length hs] =
      final_cell rule hs day i # map (final_cell rule hs day) [Suc i..<length hs]"
    by (subst up) simp
  moreover have "map (rule day) (drop i hs) = rule day (hs ! i) # map (rule day) (drop (Suc i) hs)"
    by (subst dr) simp
  ultimately show ?case
    using ih hd by (simp only: merge_col.simps)
qed

lemma takeWhile_never: "(\<And>x. \<not> P x) \<Longrightarrow> takeWhile P xs = []"
  by (cases xs) simp_all

lemma rowspan_sum_merge_col:
  "rowspan_sum (merge_col prev rs) + length (takeWhile (\<lambda>x. truthy x \<and> prev = Some x) rs)
     = length rs"
proof (induction rs arbitrary: prev)
  case Nil
  then show ?case by (simp add: rowspan_sum_def)
next
  case (Cons r rs)
  have ih: "rowspan_sum (merge_col (Some r) rs)
      + length (takeWhile (\<lambda>x. truthy x \<and> Some r = Some x) rs) = length rs"
    by (rule Cons.IH)
  show ?case
  proof (cases "truthy r")
    case False
    then have "takeWhile (\<lambda>x. truthy x \<and> Some r = Some x) rs = []"
      by (intro takeWhile_never) auto
    with ih False show ?thesis by (simp add: rowspan_sum_def)
  next
    case True
    then have same: "(\<lambda>x. truthy x \<and> Some r = Some x) = (\<lambda>x. x = r)" by auto
    show ?thesis
    proof (cases "prev = Some r")
      case hid: True
      then have "(\<lambda>x. truthy x \<and> prev = Some x) = (\<lambda>x. x = r)" using True by auto
      then show ?thesis using ih True hid unfolding same by (simp add: rowspan_sum_def)
    next
      case vis: False
      then show ?thesis using ih True unfolding same by (simp add: rowspan_sum_def)
    qed
  qed
qed

lemma rowspan_sum_final:
  "rowspan_sum (map (final_cell rule hs day) [0..<length hs]) = length hs"
proof -
  have "map (final_cell rule hs day) [0..<length hs] = merge_col None (map (rule day) hs)"
    using final_cells_merge_col [of 0 hs rule day] by simp
  moreover have "rowspan_sum (merge_col None (map (rule day) hs)) = length hs"
    using rowspan_sum_merge_col [of None "map (rule day) hs"] by (simp add: takeWhile_never)
  ultimately show ?thesis by simp
qed

lemma holiday_cells:
  "hs \<noteq> [] \<Longrightarrow> map (holiday_cell hs) [0..<length hs] =
     \<lparr>instructor = Some holiday_label, rowspan = length hs, hidden = False\<rparr>
     # replicate (length hs - 1) \<lparr>instructor = None, rowspan = 1, hidden = True\<rparr>"
proof (rule nth_equalityI)
  assume "hs \<noteq> []"
  then show "length (map (holiday_cell hs) [0..<length hs]) =
      length (\<lparr>instructor = Some holiday_label, rowspan = length hs, hidden = False\<rparr>
        # replicate (length hs - 1) \<lparr>instructor = None, rowspan = 1, hidden = True\<rparr>)"
    by (cases hs) simp_all
next
  fix k assume "k < length (map (holiday_cell hs) [0..<length hs])"
  then have "k < length hs" by simp
  then show "map (holiday_cell hs) [0..<length hs] ! k =
      (\<lparr>instructor = Some holiday_label, rowspan = length hs, hidden = False\<rparr>
        # replicate (length hs - 1) \<lparr>instructor = None, rowspan = 1, hidden = True\<rparr>) ! k"
    by (cases k) (simp_all add: holiday_cell_def)
qed

lemma rowspan_sum_holiday:
  "rowspan_sum (map (holiday_cell hs) [0..<length hs]) = length hs"
proof (cases "hs = []")
  case True
  then show ?thesis by (simp add: rowspan_sum_def)
next
  case False
  then show ?thesis by (simp add: holiday_cells rowspan_sum_def)
qed

lemma rowspan_sum_built:
  "rowspan_sum (map (built_cell rule hs hol day) [0..<length hs]) = length hs"
proof (cases "int day \<in> set hol")
  case True
  then have "built_cell rule hs hol day = holiday_cell hs" by (auto simp: built_cell_def)
  then show ?thesis by (simp add: rowspan_sum_holiday)
next
  case False
  then have "built_cell rule hs hol day = final_cell rule hs (int day)"
    by (auto simp: built_cell_def)
  then show ?thesis by (simp add: rowspan_sum_final)
qed

lemma take_merge_col_hidden:
  "truthy r \<Longrightarrow>
   take (length (takeWhile (\<lambda>x. x = r) rs)) (merge_col (Some r) rs) =
   replicate (length (takeWhile (\<lambda>x. x = r) rs)) \<lparr>instructor = None, rowspan = 1, hidden = True\<rparr>"
  by (induction rs) simp_all

lemma visible_covered_merge_col:
  "visible_count (merge_col prev rs) + covered_hidden (merge_col prev rs)
     = rowspan_sum (merge_col prev rs)"
proof (induction rs arbitrary: prev)
  case Nil
  then show ?case by (simp add: visible_count_def rowspan_sum_def)
next
  case (Cons r rs)
  have ih: "visible_count (merge_col (Some r) rs) + covered_hidden (merge_col (Some r) rs)
      = rowspan_sum (merge_col (Some r) rs)"
    by (rule Cons.IH)
  show ?case
  proof (cases "truthy r")
    case False
    then show ?thesis using ih by (simp add: visible_count_def rowspan_sum_def)
  next
    case True
    show ?thesis
    proof (cases "prev = Some r")
      case hid: True
      then show ?thesis using ih True by (simp add: visible_count_def rowspan_sum_def)
    next
      case vis: False
      have "length (filter hidden (take (length (takeWhile (\<lambda>x. x = r) rs))
          (merge_col (Some r) rs))) = length (takeWhile (\<lambda>x. x = r) rs)"
        by (simp add: take_merge_col_hidden [OF True])
      then show ?thesis using ih True vis by (simp add: visible_count_def rowspan_sum_def)
    qed
  qed
qed

lemma covered_hidden_replicate:
  "hidden c \<Longrightarrow> covered_hidden (replicate k c) = 0"
  by (induction k) simp_all

lemma visible_covered_built:
  "visible_count (map (built_cell rule hs hol day) [0..<length hs])
   + covered_hidden (map (built_cell rule hs hol day) [0..<length hs]) = length hs"
proof (cases "int day \<in> set hol")
  case True
  then have bc: "built_cell rule hs hol day = holiday_cell hs" by (auto simp: built_cell_def)
  show ?thesis
  proof (cases "hs = []")
    case True
    then show ?thesis by (simp add: visible_count_def)
  next
    case False
    then have "0 < length hs" by simp
    then show ?thesis
      unfolding bc holiday_cells [OF False]
      by (simp add: visible_count_def covered_hidden_replicate)
  qed
next
  case False
  then have bc: "built_cell rule hs hol day = final_cell rule hs (int day)"
    by (auto simp: built_cell_def)
  have mc: "map (final_cell rule hs (int day)) [0..<length hs]
      = merge_col None (map (rule (int day)) hs)"
    using final_cells_merge_col [of 0 hs rule "int day"] by simp
  show ?thesis
    unfolding bc using visible_covered_merge_col [of None "map (rule (int day)) hs"]
      rowspan_sum_final [of rule hs "int day"] by (simp add: mc)
qed

section \<open>Maximal runs\<close>

lemma getInstructor_truthy:
  "truthy (getInstructor day hour) \<longleftrightarrow> getInstructor day hour \<noteq> None"
  using getInstructor_not_empty [of day hour]
  by (cases "getInstructor day hour") (simp_all add: truthy_def)

lemma maximal_run_members:
  assumes "maximal_run rule hs day i j" "i \<le> k" "k \<le> j"
  shows "rule day (hs ! k) = rule day (hs ! i)"
proof -
  from assms(1) have ij: "i \<le> j" and j: "j < length hs"
    and all: "list_all (\<lambda>h. rule day h = rule day (hs ! i)) (take (Suc j - i) (drop i hs))"
    by (simp_all add: maximal_run_def)
  have "k - i < length (take (Suc j - i) (drop i hs))" using assms(2,3) j by simp
  with all have "rule day (take (Suc j - i) (drop i hs) ! (k - i)) = rule day (hs ! i)"
    by (simp only: list_all_length)
  moreover have "take (Suc j - i) (drop i hs) ! (k - i) = hs ! k"
    using assms(2,3) j by simp
  ultimately show ?thesis by simp
qed

lemma maximal_run_len:
  assumes "maximal_run rule hs day i j"
  shows "run_len rule hs day i = j - i"
proof -
  let ?P = "\<lambda>h. rule day h = rule day (hs ! i)"
  let ?xs = "drop (Suc i) hs"
  from assms have ij: "i \<le> j" and j: "j < length hs"
    and stop: "Suc j = length hs \<or> rule day (hs ! Suc j) \<noteq> rule day (hs ! i)"
    by (simp_all add: maximal_run_def)
  have "takeWhile ?P ?xs = take (j - i) ?xs"
  proof (rule takeWhile_eq_take_P_nth)
    fix m assume "m < j - i" "m < length ?xs"
    then have "?xs ! m = hs ! (Suc i + m)" and "i \<le> Suc i + m" and "Suc i + m \<le> j"
      by simp_all
    then show "?P (?xs ! m)" using maximal_run_members [OF assms, of "Suc i + m"] by simp
  next
    assume "j - i < length ?xs"
    then have "Suc j < length hs" and "?xs ! (j - i) = hs ! Suc j" using ij by simp_all
    then show "\<not> ?P (?xs ! (j - i))" using stop by simp
  qed
  then have "run_len rule hs day i = length (take (j - i) ?xs)" by (simp add: run_len_def)
  also have "\<dots> = j - i" using ij j by simp
  finally show ?thesis .
qed

lemma maximal_run_owner:
  assumes "maximal_run rule hs day i j" "truthy (rule day (hs ! i))"
  shows "final_cell rule hs day i =
     \<lparr>instructor = rule day (hs ! i), rowspan = Suc j - i, hidden = False\<rparr>"
proof -
  from assms(1) have ij: "i \<le> j"
    and start: "i = 0 \<or> rule day (hs ! (i - 1)) \<noteq> rule day (hs ! i)"
    by (simp_all add: maximal_run_def)
  have "Suc (run_len rule hs day i) = Suc j - i"
    using maximal_run_len [OF assms(1)] ij by simp
  then show ?thesis using start assms(2) by (auto simp: final_cell_def)
qed

lemma maximal_run_covered:
  assumes "maximal_run rule hs day i j" "truthy (rule day (hs ! i))" "i < k" "k \<le> j"
  shows "final_cell rule hs day k = \<lparr>instructor = None, rowspan = 1, hidden = True\<rparr>"
proof -
  have "rule day (hs ! k) = rule day (hs ! i)"
    using maximal_run_members [OF assms(1), of k] assms(3,4) by simp
  moreover have "rule day (hs ! (k - 1)) = rule day (hs ! i)"
    using maximal_run_members [OF assms(1), of "k - 1"] assms(3,4) by simp
  ultimately show ?thesis using assms(2,3) by (simp add: final_cell_def)
qed

section \<open>The calendar of the source\<close>

lemma holidays_in_month: "builds daysInMonth hours holidays"
  by (simp add: builds_def hours_def)

lemma hours_length: "length hours = 13"
  by (simp add: hours_def)

lemma hours_member: "hour \<in> set hours \<longleftrightarrow> 8 \<le> hour \<and> hour \<le> 20"
proof
  assume "hour \<in> set hours"
  then show "8 \<le> hour \<and> hour \<le> 20" by (auto simp: hours_def)
next
  assume "8 \<le> hour \<and> hour \<le> 20"
  then have "hour = 8 \<or> hour = 9 \<or> hour = 10 \<or> hour = 11 \<or> hour = 12 \<or> hour = 13
      \<or> hour = 14 \<or> hour = 15 \<or> hour = 16 \<or> hour = 17 \<or> hour = 18 \<or> hour = 19
      \<or> hour = 20"
    by arith
  then show "hour \<in> set hours" by (simp add: hours_def)
qed

section \<open>The grid builder: results\<close>

text \<open>
  C2. On a day of the month that is not a holiday, for any maximal run \<open>i..j\<close> of hour
  indices on which \<open>getInstructor\<close> gives the same instructor, not none, the built grid
  has the cell at \<open>i\<close> visible and every other cell of the run hidden (so exactly one
  visible cell in the run), and the rowspan of the cell at \<open>i\<close> is the length of the run;
  that cell carries the instructor of the run.
\<close>

theorem merge_correct:
  assumes "1 \<le> day" "day \<le> nd" "int day \<notin> set hol"
    and "maximal_run getInstructor hs (int day) i j"
  shows "\<exists>g. buildGrid getInstructor nd hs hol = Inr g \<and>
     map hidden (take (Suc j - i) (drop i (column g (day - 1)))) = False # replicate (j - i) True \<and>
     rowspan (g ! i ! (day - 1)) = Suc j - i \<and>
     instructor (g ! i ! (day - 1)) = getInstructor (int day) (hs ! i)"
proof -
  define dx where "dx = day - 1"
  from assms(4) have ij: "i \<le> j" and j: "j < length hs"
    and some: "getInstructor (int day) (hs ! i) \<noteq> None"
    by (simp_all add: maximal_run_def)
  have tr: "truthy (getInstructor (int day) (hs ! i))"
    using some by (simp add: getInstructor_truthy)
  have d: "dx < nd" and sd: "Suc dx = day" using assms(1,2) by (simp_all add: dx_def)
  have "builds nd hs hol" using j by (intro builds_nonempty) auto
  from buildGrid_cells [OF this, of getInstructor] obtain g where
    g: "buildGrid getInstructor nd hs hol = Inr g"
    and col: "\<forall>d<nd. column g d = map (built_cell getInstructor hs hol (Suc d)) [0..<length hs]"
    and cell: "\<forall>k<length hs. \<forall>d<nd. g ! k ! d = built_cell getInstructor hs hol (Suc d) k"
    by blast
  let ?f = "final_cell getInstructor hs (int day)"
  have bc: "built_cell getInstructor hs hol day = ?f"
    using assms(3) by (auto simp: built_cell_def)
  have colf: "column g dx = map ?f [0..<length hs]"
    using col d sd bc by simp
  have owner: "g ! i ! dx = ?f i" using cell d sd bc ij j by simp
  define e where "e = Suc j"
  have e: "i < e" "e \<le> length hs" "e - i = Suc (j - i)" using ij j by (simp_all add: e_def)
  have run: "take (e - i) (drop i (map ?f [0..<length hs])) = map ?f [i..<e]"
    using e(1,2) by (simp add: take_map drop_map)
  have "map hidden (map ?f [i..<e]) = False # replicate (j - i) True"
  proof (rule nth_equalityI)
    show "length (map hidden (map ?f [i..<e])) = length (False # replicate (j - i) True)"
      using e(3) by simp
  next
    fix m assume "m < length (map hidden (map ?f [i..<e]))"
    then have m: "m < e - i" by simp
    then have "map hidden (map ?f [i..<e]) ! m = hidden (?f (i + m))"
      by simp
    also have "\<dots> = (False # replicate (j - i) True) ! m"
    proof (cases m)
      case 0
      then show ?thesis using maximal_run_owner [OF assms(4) tr] by simp
    next
      case (Suc m')
      then have "i < i + m" "i + m \<le> j" using m e(3) by simp_all
      from maximal_run_covered [OF assms(4) tr this] Suc m e(3) show ?thesis by simp
    qed
    finally show "map hidden (map ?f [i..<e]) ! m = (False # replicate (j - i) True) ! m" .
  qed
  then have "map hidden (take (e - i) (drop i (column g dx))) = False # replicate (j - i) True"
    unfolding colf run .
  then have "map hidden (take (Suc j - i) (drop i (column g dx))) = False # replicate (j - i) True"
    using ij by (simp add: e_def Suc_diff_le)
  with g owner maximal_run_owner [OF assms(4) tr] show ?thesis
    unfolding dx_def by simp
qed

text \<open>
  The run of Kayo on day 1 of the source's calendar: hour indices 2..8 (hours 10..16).
\<close>

theorem merge_correct_witness:
  "(1::nat) \<le> 1 \<and> 1 \<le> daysInMonth \<and> int 1 \<notin> set holidays
   \<and> maximal_run getInstructor hours (int 1) 2 8
   \<and> (\<exists>g. scheduleGrid = Inr g \<and>
        map hidden (take 7 (drop 2 (column g 0)))
          = False # replicate 6 True \<and>
        rowspan (g ! 2 ! 0) = 7 \<and> instructor (g ! 2 ! 0) = Some ''Kayo'')"
proof -
  have h1: "(1::nat) \<le> 1" and h2: "1 \<le> daysInMonth" and h3: "int 1 \<notin> set holidays"
    by (simp_all add: daysInMonth_def holidays_def)
  have h4: "maximal_run getInstructor hours (int 1) 2 8"
    by (simp add: maximal_run_def hours_def getInstructor_def)
  have h5: "getInstructor 1 (hours ! 2) = Some ''Kayo''"
    by (simp add: hours_def getInstructor_def)
  from merge_correct [OF h1 h2 h3 h4]
  have "\<exists>g. scheduleGrid = Inr g \<and>
        map hidden (take 7 (drop 2 (column g 0)))
          = False # replicate 6 True \<and>
        rowspan (g ! 2 ! 0) = 7 \<and> instructor (g ! 2 ! 0) = Some ''Kayo''"
    by (simp add: scheduleGrid_def h5)
  with h1 h2 h3 h4 show ?thesis by blast
qed

text \<open>
  C3. For a holiday of the month, whatever the rule engine, the built grid has in that
  day's column the cell \<open>{instructor: holiday label, rowspan: hours.length, hidden:
  false}\<close> at hour index 0 and a hidden cell, still without instructor, at every other
  hour index. The column is the same for every rule engine: its output plays no part.
\<close>

theorem holiday_column:
  assumes "hs \<noteq> []" "1 \<le> day" "day \<le> nd" "int day \<in> set hol"
  shows "\<exists>g. buildGrid rule nd hs hol = Inr g \<and>
     g ! 0 ! (day - 1) = \<lparr>instructor = Some holiday_label, rowspan = length hs, hidden = False\<rparr> \<and>
     column g (day - 1) =
       \<lparr>instructor = Some holiday_label, rowspan = length hs, hidden = False\<rparr>
       # replicate (length hs - 1) \<lparr>instructor = None, rowspan = 1, hidden = True\<rparr>"
proof -
  have d: "day - 1 < nd" and sd: "Suc (day - 1) = day" using assms(2,3) by simp_all
  from buildGrid_cells [OF builds_nonempty [OF assms(1)], where rule = rule and nd = nd
      and hol = hol] obtain g where
    g: "buildGrid rule nd hs hol = Inr g"
    and col: "\<forall>d<nd. column g d = map (built_cell rule hs hol (Suc d)) [0..<length hs]"
    and cell: "\<forall>k<length hs. \<forall>d<nd. g ! k ! d = built_cell rule hs hol (Suc d) k"
    by blast
  have bc: "built_cell rule hs hol day = holiday_cell hs"
    using assms(4) by (auto simp: built_cell_def)
  have "column g (day - 1) = map (holiday_cell hs) [0..<length hs]"
    using col d sd bc by simp
  moreover have "g ! 0 ! (day - 1) = holiday_cell hs 0"
    using cell d sd bc assms(1) by simp
  ultimately show ?thesis using g holiday_cells [OF assms(1)] by (simp add: holiday_cell_def)
qed

theorem holiday_column_witness:
  "hours \<noteq> [] \<and> (1::nat) \<le> 5 \<and> 5 \<le> daysInMonth \<and> int 5 \<in> set holidays
   \<and> (\<exists>g. scheduleGrid = Inr g \<and>
        g ! 0 ! 4 = \<lparr>instructor = Some holiday_label, rowspan = 13, hidden = False\<rparr> \<and>
        column g 4 = \<lparr>instructor = Some holiday_label, rowspan = 13, hidden = False\<rparr>
           # replicate 12 \<lparr>instructor = None, rowspan = 1, hidden = True\<rparr>)"
proof -
  have h1: "hours \<noteq> []" and h2: "(1::nat) \<le> 5" and h3: "5 \<le> daysInMonth"
    and h4: "int 5 \<in> set holidays"
    by (simp_all add: daysInMonth_def holidays_def hours_def)
  from holiday_column [OF h1 h2 h3 h4, of getInstructor]
  have "\<exists>g. scheduleGrid = Inr g \<and>
        g ! 0 ! 4 = \<lparr>instructor = Some holiday_label, rowspan = 13, hidden = False\<rparr> \<and>
        column g 4 = \<lparr>instructor = Some holiday_label, rowspan = 13, hidden = False\<rparr>
           # replicate 12 \<lparr>instructor = None, rowspan = 1, hidden = True\<rparr>"
    by (simp add: scheduleGrid_def hours_length)
  with h1 h2 h3 h4 show ?thesis by blast
qed

text \<open>
  C5. On a day of the month that is not a holiday, a cell at an hour index where
  \<open>getInstructor\<close> gives none is neither hidden nor merged: it keeps \<open>rowspan = 1\<close> and
  \<open>hidden = false\<close>, whatever the instructors on either side.
\<close>

theorem none_cell_not_merged:
  assumes "1 \<le> day" "day \<le> nd" "int day \<notin> set hol" "h < length hs"
    and "getInstructor (int day) (hs ! h) = None"
  shows "\<exists>g. buildGrid getInstructor nd hs hol = Inr g \<and>
     g ! h ! (day - 1) = \<lparr>instructor = None, rowspan = 1, hidden = False\<rparr>"
proof -
  have d: "day - 1 < nd" and sd: "Suc (day - 1) = day" using assms(1,2) by simp_all
  have "builds nd hs hol" using assms(4) by (intro builds_nonempty) auto
  from buildGrid_cells [OF this, of getInstructor] obtain g where
    g: "buildGrid getInstructor nd hs hol = Inr g"
    and cell: "\<forall>k<length hs. \<forall>d<nd. g ! k ! d = built_cell getInstructor hs hol (Suc d) k"
    by blast
  have "g ! h ! (day - 1) = final_cell getInstructor hs (int day) h"
    using cell d sd assms(3,4) by (simp add: built_cell_def)
  also have "\<dots> = \<lparr>instructor = None, rowspan = 1, hidden = False\<rparr>"
    using assms(5) by (simp add: final_cell_def truthy_def)
  finally show ?thesis using g by simp
qed

text \<open>
  Hour 14 of day 20 in the source's calendar, and a gap between two hours of Kayo in
  a calendar of one day with the hours 10, 9, 11.
\<close>

theorem none_cell_not_merged_witness:
  "(1::nat) \<le> 20 \<and> 20 \<le> daysInMonth \<and> int 20 \<notin> set holidays \<and> 6 < length hours
   \<and> getInstructor (int 20) (hours ! 6) = None
   \<and> (\<exists>g. scheduleGrid = Inr g \<and>
         g ! 6 ! 19 = \<lparr>instructor = None, rowspan = 1, hidden = False\<rparr>)
   \<and> (1::nat) \<le> 1 \<and> int 1 \<notin> set [] \<and> 1 < length [10, 9, 11 :: int]
   \<and> map (getInstructor (int 1)) [10, 9, 11] = [Some ''Kayo'', None, Some ''Kayo'']
   \<and> (\<exists>g. buildGrid getInstructor 1 [10, 9, 11] [] = Inr g \<and>
         g ! 1 ! 0 = \<lparr>instructor = None, rowspan = 1, hidden = False\<rparr>)"
proof -
  have a1: "(1::nat) \<le> 20" and a2: "20 \<le> daysInMonth" and a3: "int 20 \<notin> set holidays"
    and a4: "6 < length hours" and a5: "getInstructor (int 20) (hours ! 6) = None"
    by (simp_all add: daysInMonth_def holidays_def hours_def getInstructor_def)
  from none_cell_not_merged [OF a1 a2 a3 a4 a5]
  have a: "\<exists>g. scheduleGrid = Inr g \<and>
         g ! 6 ! 19 = \<lparr>instructor = None, rowspan = 1, hidden = False\<rparr>"
    by (simp add: scheduleGrid_def)
  have b1: "(1::nat) \<le> 1" and b3: "int 1 \<notin> set []" and b4: "1 < length [10, 9, 11 :: int]"
    and b5: "getInstructor (int 1) ([10, 9, 11] ! 1) = None"
    and b6: "map (getInstructor (int 1)) [10, 9, 11] = [Some ''Kayo'', None, Some ''Kayo'']"
    by (simp_all add: getInstructor_def)
  from none_cell_not_merged [OF b1 b1 b3 b4 b5]
  have b: "\<exists>g. buildGrid getInstructor 1 [10, 9, 11] [] = Inr g \<and>
         g ! 1 ! 0 = \<lparr>instructor = None, rowspan = 1, hidden = False\<rparr>"
    by simp
  from a1 a2 a3 a4 a5 a b1 b3 b4 b6 b show ?thesis by blast
qed

text \<open>
  C6. In the built grid, in every day column, holiday or not, the rowspans of the
  visible cells add up to \<open>hours.length\<close>.
\<close>

theorem rowspan_sum_invariant:
  assumes "builds nd hs hol" "d < nd"
  shows "\<exists>g. buildGrid getInstructor nd hs hol = Inr g \<and>
     rowspan_sum (column g d) = length hs"
proof -
  from buildGrid_cells [OF assms(1), of getInstructor] obtain g where
    g: "buildGrid getInstructor nd hs hol = Inr g"
    and col: "\<forall>d<nd. column g d = map (built_cell getInstructor hs hol (Suc d)) [0..<length hs]"
    by blast
  have "rowspan_sum (column g d) = length hs"
    using col assms(2) by (simp add: rowspan_sum_built)
  with g show ?thesis by blast
qed

theorem rowspan_sum_invariant_witness:
  "builds daysInMonth hours holidays \<and> 0 < daysInMonth \<and> 4 < daysInMonth
   \<and> (\<exists>g. scheduleGrid = Inr g \<and> rowspan_sum (column g 0) = 13)
   \<and> (\<exists>g. scheduleGrid = Inr g \<and> rowspan_sum (column g 4) = 13)"
proof -
  have h1: "builds daysInMonth hours holidays" by (rule holidays_in_month)
  have h2: "0 < daysInMonth" and h3: "4 < daysInMonth" by (simp_all add: daysInMonth_def)
  from rowspan_sum_invariant [OF h1 h2] rowspan_sum_invariant [OF h1 h3]
  have "\<exists>g. scheduleGrid = Inr g \<and> rowspan_sum (column g 0) = 13"
    "\<exists>g. scheduleGrid = Inr g \<and> rowspan_sum (column g 4) = 13"
    by (simp_all add: scheduleGrid_def hours_length)
  with h1 h2 h3 show ?thesis by blast
qed

text \<open>
  C7, as the specification states it, fails: adding the count of the hidden cells that
  the rowspans cover to the sum of the rowspans counts those cells twice. In the column
  of the holiday 5 of the source's calendar the one visible cell has rowspan 13 and
  covers 12 hidden cells, which gives 25, not 13.
\<close>

theorem rowspans_plus_covered_counterexample:
  "\<exists>g. scheduleGrid = Inr g \<and>
     rowspan_sum (column g 4) + covered_hidden (column g 4) \<noteq> length hours"
proof -
  from buildGrid_cells [OF holidays_in_month, of getInstructor] obtain g where
    g: "scheduleGrid = Inr g"
    and col: "\<forall>d<daysInMonth. column g d =
        map (built_cell getInstructor hours holidays (Suc d)) [0..<length hours]"
    unfolding scheduleGrid_def by blast
  have ne: "hours \<noteq> []" by (simp add: hours_def)
  have "built_cell getInstructor hours holidays (Suc 4) = holiday_cell hours"
    by (auto simp: built_cell_def holidays_def)
  then have "column g 4 =
      \<lparr>instructor = Some holiday_label, rowspan = length hours, hidden = False\<rparr>
       # replicate (length hours - 1) \<lparr>instructor = None, rowspan = 1, hidden = True\<rparr>"
    using col holiday_cells [OF ne] by (simp add: daysInMonth_def)
  then have "rowspan_sum (column g 4) + covered_hidden (column g 4) = 25"
    by (simp add: rowspan_sum_def covered_hidden_replicate hours_def)
  then have "rowspan_sum (column g 4) + covered_hidden (column g 4) \<noteq> length hours"
    by (simp add: hours_def)
  with g show ?thesis by blast
qed

text \<open>
  C7, amended. In the built grid, in every day column, the number of the visible cells
  plus the count of the hidden cells their rowspans cover is \<open>hours.length\<close>.
\<close>

theorem visible_plus_covered:
  assumes "builds nd hs hol" "d < nd"
  shows "\<exists>g. buildGrid getInstructor nd hs hol = Inr g \<and>
     visible_count (column g d) + covered_hidden (column g d) = length hs"
proof -
  from buildGrid_cells [OF assms(1), of getInstructor] obtain g where
    g: "buildGrid getInstructor nd hs hol = Inr g"
    and col: "\<forall>d<nd. column g d = map (built_cell getInstructor hs hol (Suc d)) [0..<length hs]"
    by blast
  have "visible_count (column g d) + covered_hidden (column g d) = length hs"
    using col assms(2) by (simp add: visible_covered_built)
  with g show ?thesis by blast
qed

theorem visible_plus_covered_witness:
  "builds daysInMonth hours holidays \<and> 4 < daysInMonth
   \<and> (\<exists>g. scheduleGrid = Inr g \<and>
         visible_count (column g 4) + covered_hidden (column g 4) = 13)"
proof -
  have h1: "builds daysInMonth hours holidays" by (rule holidays_in_month)
  have h2: "4 < daysInMonth" by (simp add: daysInMonth_def)
  from visible_plus_covered [OF h1 h2]
  have "\<exists>g. scheduleGrid = Inr g \<and>
         visible_count (column g 4) + covered_hidden (column g 4) = 13"
    by (simp add: scheduleGrid_def hours_length)
  with h1 h2 show ?thesis by blast
qed

text \<open>
  C9. The built grid is a function of the calendar alone: two calendars with the same
  number of days, the same hour list and the same set of holidays (in whatever order,
  with whatever repetitions the holiday array lists them) give the same result, cell
  by cell. \<open>getInstructor\<close> reads nothing but its two arguments, so it is a function of
  them, and the builder is stated for any such rule engine.
\<close>

theorem build_depends_on_holiday_set:
  assumes "set hol = set hol'"
  shows "buildGrid rule nd hs hol = buildGrid rule nd hs hol'"
proof (cases "builds nd hs hol")
  case False
  then have "\<not> builds nd hs hol'" using assms by (simp add: builds_def)
  with False show ?thesis by (simp add: buildGrid_fails)
next
  case True
  then have b': "builds nd hs hol'" using assms by (simp add: builds_def)
  from buildGrid_spec [OF True, of rule] obtain g where
    g: "buildGrid rule nd hs hol = Inr g" "grid_shape g (length hs) nd"
      "\<forall>k<length hs. \<forall>d<nd. g ! k ! d = built_cell rule hs hol (Suc d) k"
    by blast
  from buildGrid_spec [OF b', of rule] obtain g' where
    g': "buildGrid rule nd hs hol' = Inr g'" "grid_shape g' (length hs) nd"
      "\<forall>k<length hs. \<forall>d<nd. g' ! k ! d = built_cell rule hs hol' (Suc d) k"
    by blast
  have same: "\<And>day k. built_cell rule hs hol day k = built_cell rule hs hol' day k"
    using assms by (simp add: built_cell_def)
  have "g = g'"
  proof (rule nth_equalityI)
    show "length g = length g'" using g(2) g'(2) by (simp add: grid_shape_nth)
  next
    fix k assume "k < length g"
    then have k: "k < length hs" using g(2) by (simp add: grid_shape_nth)
    show "g ! k = g' ! k"
    proof (rule nth_equalityI)
      show "length (g ! k) = length (g' ! k)" using g(2) g'(2) k by (simp add: grid_shape_nth)
    next
      fix d assume "d < length (g ! k)"
      then have "d < nd" using g(2) k by (simp add: grid_shape_nth)
      then show "g ! k ! d = g' ! k ! d" using g(3) g'(3) k same by simp
    qed
  qed
  with g(1) g'(1) show ?thesis by simp
qed

theorem build_depends_on_holiday_set_witness:
  "set holidays = set [25, 10, 6, 5, 5]
   \<and> scheduleGrid = buildGrid getInstructor daysInMonth hours [25, 10, 6, 5, 5]"
proof -
  have h: "set holidays = set [25, 10, 6, 5, 5]" by (auto simp: holidays_def)
  from build_depends_on_holiday_set [OF h, of getInstructor daysInMonth hours] h
  show ?thesis by (simp add: scheduleGrid_def)
qed

section \<open>The rule engine outside its domain\<close>

text \<open>
  C8, as the specification states it, fails: \<open>getInstructor\<close> has no check of its
  arguments and nothing in it throws. Day 0 at hour 7 is outside the domain and the
  result is none; day 42 at hour 12 is outside the domain and the result is Kayo.
\<close>

theorem getInstructor_no_failure_counterexample:
  "\<not> in_domain daysInMonth hours 0 7 \<and> getInstructor 0 7 = None
   \<and> \<not> in_domain daysInMonth hours 42 12 \<and> getInstructor 42 12 = Some ''Kayo''"
  by (simp add: in_domain_def getInstructor_def hours_def daysInMonth_def)

text \<open>
  C8, amended. For an integer day and an integer hour, the day outside 1..daysInMonth
  or the hour outside the hour list of the source's calendar, the rule engine does not
  fail: it returns Kayo for an hour in 10..16, Gota for an hour in 17..20 and none for
  any other hour. (\<open>day\<close> and \<open>hour\<close> are of type \<open>int\<close>: nothing is said of a
  fractional day or hour, which the rule windows of a special day can still catch.)
\<close>

theorem getInstructor_out_of_domain:
  assumes "\<not> in_domain daysInMonth hours day hour"
  shows "getInstructor day hour =
     (if 10 \<le> hour \<and> hour \<le> 16 then Some ''Kayo''
      else if 17 \<le> hour \<and> hour \<le> 20 then Some ''Gota'' else None)"
  using assms by (auto simp: in_domain_def hours_member daysInMonth_def getInstructor_def)

theorem getInstructor_out_of_domain_witness:
  "\<not> in_domain daysInMonth hours 0 7 \<and> getInstructor 0 7 = None
   \<and> \<not> in_domain daysInMonth hours 31 12 \<and> getInstructor 31 12 = Some ''Kayo''
   \<and> \<not> in_domain daysInMonth hours (- 3) 19 \<and> getInstructor (- 3) 19 = Some ''Gota''"
proof -
  have h: "\<not> in_domain daysInMonth hours 0 7" "\<not> in_domain daysInMonth hours 31 12"
    "\<not> in_domain daysInMonth hours (- 3) 19"
    by (simp_all add: in_domain_def daysInMonth_def hours_def)
  from getInstructor_out_of_domain [OF h(1)] getInstructor_out_of_domain [OF h(2)]
    getInstructor_out_of_domain [OF h(3)] h
  show ?thesis by simp
qed

text \<open>
  C10. \<open>getInstructor\<close> is total on the integers and looks at neither \<open>daysInMonth\<close> nor
  the hour list: for any day that is none of the special days (day 0 or day 42, say) it
  returns Kayo for an hour in 10..16, Gota for an hour in 17..20 and none for any other
  hour; and on any day at all it returns none, not an error, for an hour below 8 or
  above 20, which is outside every window of the rules.
\<close>

theorem getInstructor_total:
  "(day \<notin> {3, 9, 13, 16, 17, 20, 24, 28, 29} \<longrightarrow>
      getInstructor day hour =
        (if 10 \<le> hour \<and> hour \<le> 16 then Some ''Kayo''
         else if 17 \<le> hour \<and> hour \<le> 20 then Some ''Gota'' else None))
   \<and> (hour < 8 \<or> 20 < hour \<longrightarrow> getInstructor day hour = None)"
  by (auto simp: getInstructor_def)

theorem getInstructor_total_witness:
  "(0::int) \<notin> {3, 9, 13, 16, 17, 20, 24, 28, 29} \<and> getInstructor 0 12 = Some ''Kayo''
   \<and> (42::int) \<notin> {3, 9, 13, 16, 17, 20, 24, 28, 29} \<and> getInstructor 42 18 = Some ''Gota''
   \<and> getInstructor 42 9 = None
   \<and> ((7::int) < 8 \<or> (20::int) < 7) \<and> getInstructor 13 7 = None"
  using getInstructor_total [of 0 12] getInstructor_total [of 42 18]
    getInstructor_total [of 42 9] getInstructor_total [of 13 7]
  by simp

end
